theory Spec2Isabelle
  imports Main "HOL-Library.AList"
begin

section \<open>The LLaMa tokenizer adapter (tokenization_llama.py)\<close>

text \<open>
  The class \<open>LLaMaTokenizer\<close> wraps a SentencePiece processor. Python names with a
  leading underscore (\<open>__init__\<close>, \<open>_tokenize\<close>, \<open>_convert_token_to_id\<close>,
  \<open>_convert_id_to_token\<close>) lose the underscores here, since an identifier cannot
  start with one. Token ids are Python's unbounded integers, hence \<open>int\<close>.
\<close>

subsection \<open>Errors\<close>

datatype error =
    AssertionError  \<comment> \<open>a failed \<open>assert\<close> of the constructor\<close>
  | IndexError      \<comment> \<open>\<open>IdToPiece\<close> on an id outside the vocabulary\<close>
  | OSError         \<comment> \<open>the model file cannot be loaded\<close>

subsection \<open>Python dictionaries\<close>

text \<open>
  A dictionary is an association list in insertion order with one entry per key.
  Storing under a key that is present replaces the value in place, storing under a
  new key appends: this is \<open>AList.update\<close>. A dictionary display or comprehension
  stores its items from left to right into the empty dictionary.
\<close>

definition dict_of :: "('k \<times> 'v) list \<Rightarrow> ('k \<times> 'v) list" where
  "dict_of kvs = foldl (\<lambda>d (k, v). AList.update k v d) [] kvs"

subsection \<open>The SentencePiece processor\<close>

text \<open>
  Modelled from the spec: the SentencePiece engine is an external library and is not
  part of the source. The spec's Vocabulary Store is an ordered sequence of pieces whose
  ids are their positions, the dense range from 0 to the size; \<open>lookup_id\<close> answers
  "not found" for a string that is no piece. The calls the adapter makes are modelled
  on top of it: \<open>piece_to_id\<close> turns "not found" into the unknown id (the constructor
  relies on exactly this: its comment reads "special token doesn't exist in the
  sentencepiece tokenizer" next to the comparison with \<open>unk_id()\<close>), \<open>IdToPiece\<close>
  raises outside the range, and the segmentation \<open>encode\<close> and the three reserved ids
  are parameters of the loaded model.
\<close>

record sp_processor =
  pieces :: "string list"
  bos_id :: int
  eos_id :: int
  unk_id :: int
  encode :: "string \<Rightarrow> string list"

text \<open>
  Modelled from the spec: the Vocabulary Store's \<open>lookup_id\<close>, the position of a piece
  in the sequence, or "not found".
\<close>

fun lookup_id :: "string list \<Rightarrow> string \<Rightarrow> nat option" where
  "lookup_id [] s = None"
| "lookup_id (p # ps) s = (if p = s then Some 0 else map_option Suc (lookup_id ps s))"

text \<open>Modelled from the spec: the Vocabulary Store's \<open>size\<close>, the number of pieces.\<close>

definition get_piece_size :: "sp_processor \<Rightarrow> int" where
  "get_piece_size sp = int (length (pieces sp))"

text \<open>
  Modelled from the spec: SentencePiece's \<open>piece_to_id\<close>, the store's lookup with
  "not found" translated to the unknown id.
\<close>

definition piece_to_id :: "sp_processor \<Rightarrow> string \<Rightarrow> int" where
  "piece_to_id sp s = (case lookup_id (pieces sp) s of Some i \<Rightarrow> int i | None \<Rightarrow> unk_id sp)"

text \<open>
  Modelled from the spec: SentencePiece's \<open>IdToPiece\<close>, the store's \<open>lookup_piece\<close>;
  an id outside the range raises.
\<close>

definition IdToPiece :: "sp_processor \<Rightarrow> int \<Rightarrow> error + string" where
  "IdToPiece sp i =
     (if 0 \<le> i \<and> i < get_piece_size sp then Inr (pieces sp ! nat i) else Inl IndexError)"

text \<open>
  Modelled from the spec: loading a model file. The file system is a map from paths to
  the models stored there; a missing file raises.
\<close>

definition SentencePieceProcessor :: "(string \<rightharpoonup> sp_processor) \<Rightarrow> string \<Rightarrow> error + sp_processor" where
  "SentencePieceProcessor fs model_file =
     (case fs model_file of None \<Rightarrow> Inl OSError | Some sp \<Rightarrow> Inr sp)"

subsection \<open>The tokenizer object\<close>

text \<open>
  The fields the class assigns in \<open>__init__\<close>, and the three token strings that the
  base class constructor stores and returns through the properties \<open>bos_token\<close>,
  \<open>eos_token\<close> and \<open>unk_token\<close>.
\<close>

record tokenizer =
  sp_model :: sp_processor
  special_token_to_id :: "(string \<times> int) list"
  special_id_to_token :: "(int \<times> string) list"
  vocab_file :: string
  bos_token :: string
  eos_token :: string
  unk_token :: string

subsection \<open>Construction\<close>

text \<open>The loop of assertions over \<open>special_token_to_id.items()\<close>.\<close>

fun check_special_tokens :: "sp_processor \<Rightarrow> (string \<times> int) list \<Rightarrow> error + unit" where
  "check_special_tokens sp [] = Inr ()"
| "check_special_tokens sp ((special_token, token_id) # items) =
     (if unk_id sp \<noteq> piece_to_id sp special_token then Inl AssertionError
      else if \<not> token_id \<ge> 0 then Inl AssertionError
      else check_special_tokens sp items)"

text \<open>
  \<open>__init__\<close>: load the model, build the two dictionaries, run the assertions,
  store the token strings (the base class constructor), store the path and load the
  model a second time.
\<close>

definition init ::
  "(string \<rightharpoonup> sp_processor) \<Rightarrow> string \<Rightarrow> string \<Rightarrow> string \<Rightarrow> string \<Rightarrow> error + tokenizer" where
  "init fs vocab_file_arg bos eos unk =
     (case SentencePieceProcessor fs vocab_file_arg of
        Inl e \<Rightarrow> Inl e
      | Inr sp \<Rightarrow>
          let s2i = dict_of [(bos, bos_id sp), (eos, eos_id sp), (unk, unk_id sp)];
              i2s = dict_of (map (\<lambda>(k, v). (v, k)) s2i)
          in if length i2s \<noteq> length s2i then Inl AssertionError
             else (case check_special_tokens sp s2i of
                     Inl e \<Rightarrow> Inl e
                   | Inr _ \<Rightarrow>
                       (case SentencePieceProcessor fs vocab_file_arg of
                          Inl e \<Rightarrow> Inl e
                        | Inr sp' \<Rightarrow>
                            Inr \<lparr> sp_model = sp',
                                  special_token_to_id = s2i,
                                  special_id_to_token = i2s,
                                  vocab_file = vocab_file_arg,
                                  bos_token = bos,
                                  eos_token = eos,
                                  unk_token = unk \<rparr>)))"

subsection \<open>Methods\<close>

text \<open>
  Every method takes the object and returns its result together with the object as the
  call leaves it, so that what a call does to the state is part of the model.
\<close>

definition vocab_size :: "tokenizer \<Rightarrow> int \<times> tokenizer" where
  "vocab_size self = (get_piece_size (sp_model self), self)"

definition tokenize :: "tokenizer \<Rightarrow> string \<Rightarrow> string list \<times> tokenizer" where
  "tokenize self text = ([bos_token self] @ encode (sp_model self) text, self)"

definition convert_token_to_id :: "tokenizer \<Rightarrow> string \<Rightarrow> int \<times> tokenizer" where
  "convert_token_to_id self token =
     (case map_of (special_token_to_id self) token of
        Some i \<Rightarrow> (i, self)
      | None \<Rightarrow> (piece_to_id (sp_model self) token, self))"

definition convert_id_to_token :: "tokenizer \<Rightarrow> int \<Rightarrow> (error + string) \<times> tokenizer" where
  "convert_id_to_token self index =
     (case map_of (special_id_to_token self) index of
        Some s \<Rightarrow> (Inr s, self)
      | None \<Rightarrow> (IdToPiece (sp_model self) index, self))"

text \<open>
  Modelled from the spec: \<open>convert_ids_to_tokens\<close> belongs to the host framework's base
  class and is not in the source. On a single id it is the public side of the
  conversion, which consults the Registry first and the Vocabulary Store after it: the
  call is forwarded to \<open>_convert_id_to_token\<close> (the object holds no added tokens).
\<close>

definition convert_ids_to_tokens :: "tokenizer \<Rightarrow> int \<Rightarrow> (error + string) \<times> tokenizer" where
  "convert_ids_to_tokens self i = convert_id_to_token self i"

text \<open>
  \<open>get_vocab\<close>: the comprehension over \<open>range(self.vocab_size)\<close>, storing
  \<open>convert_ids_to_tokens(i) \<mapsto> i\<close> for each id in turn; an exception of a
  conversion ends it.
\<close>

fun get_vocab_loop ::
  "tokenizer \<Rightarrow> int list \<Rightarrow> (string \<times> int) list \<Rightarrow> (error + (string \<times> int) list) \<times> tokenizer" where
  "get_vocab_loop self [] vocab = (Inr vocab, self)"
| "get_vocab_loop self (i # ids) vocab =
     (case convert_ids_to_tokens self i of
        (Inl e, self') \<Rightarrow> (Inl e, self')
      | (Inr tok, self') \<Rightarrow> get_vocab_loop self' ids (AList.update tok i vocab))"

definition get_vocab :: "tokenizer \<Rightarrow> (error + (string \<times> int) list) \<times> tokenizer" where
  "get_vocab self =
     (case vocab_size self of (n, self') \<Rightarrow> get_vocab_loop self' [0..n - 1] [])"

subsection \<open>A small model file\<close>

text \<open>
  A vocabulary in the layout of the LLaMa model: the unknown, begin and end pieces at
  ids 0, 1 and 2, then three trained pieces. Its segmentation cuts the text into
  single characters.
\<close>

definition demo_sp :: sp_processor where
  "demo_sp = \<lparr> pieces = [''<unk>'', ''<s>'', ''</s>'', ''a'', ''b'', ''ab''],
               bos_id = 1, eos_id = 2, unk_id = 0,
               encode = map (\<lambda>c. [c]) \<rparr>"

definition demo_fs :: "string \<rightharpoonup> sp_processor" where
  "demo_fs = [''tokenizer.model'' \<mapsto> demo_sp]"

definition demo_tokenizer :: tokenizer where
  "demo_tokenizer =
     \<lparr> sp_model = demo_sp,
       special_token_to_id = [(''<bos>'', 1), (''<eos>'', 2), (''<unk>'', 0)],
       special_id_to_token = [(1, ''<bos>''), (2, ''<eos>''), (0, ''<unk>'')],
       vocab_file = ''tokenizer.model'',
       bos_token = ''<bos>'',
       eos_token = ''<eos>'',
       unk_token = ''<unk>'' \<rparr>"

subsection \<open>The constructor's two checks\<close>

text \<open>
  The assertions of \<open>__init__\<close> taken together, for the dictionary \<open>s2i\<close> it has
  built: the reversed dictionary is as long as \<open>s2i\<close>, and the loop over the items
  passes.
\<close>

definition registry_ok :: "sp_processor \<Rightarrow> (string \<times> int) list \<Rightarrow> bool" where
  "registry_ok sp s2i \<longleftrightarrow>
     length (dict_of (map (\<lambda>(k, v). (v, k)) s2i)) = length s2i \<and>
     check_special_tokens sp s2i = Inr ()"

subsection \<open>A model file without a begin-of-sequence piece\<close>

text \<open>
  SentencePiece reports the id \<open>-1\<close> for a reserved piece that the model was trained
  without; here the begin-of-sequence piece is the missing one.
\<close>

definition nobos_sp :: sp_processor where
  "nobos_sp = \<lparr> pieces = [''<unk>'', ''</s>'', ''a''],
                bos_id = - 1, eos_id = 1, unk_id = 0,
                encode = map (\<lambda>c. [c]) \<rparr>"

definition nobos_fs :: "string \<rightharpoonup> sp_processor" where
  "nobos_fs = [''tokenizer.model'' \<mapsto> nobos_sp]"

subsection \<open>The empty string as begin-of-sequence token\<close>


section \<open>Properties\<close>

subsection \<open>Vocabulary lookup and dictionaries\<close>

lemma lookup_id_None: "lookup_id ps s = None \<longleftrightarrow> s \<notin> set ps"
  by (induction ps) auto

lemma lookup_id_Some: "lookup_id ps s = Some i \<Longrightarrow> i < length ps \<and> ps ! i = s"
  by (induction ps arbitrary: i) (auto split: if_splits)

lemma lookup_id_nth: "distinct ps \<Longrightarrow> i < length ps \<Longrightarrow> lookup_id ps (ps ! i) = Some i"
proof (induction ps arbitrary: i)
  case Nil
  then show ?case by simp
next
  case (Cons p ps)
  show ?case
  proof (cases i)
    case 0
    then show ?thesis by simp
  next
    case (Suc j)
    with Cons.prems have "j < length ps" "ps ! j \<noteq> p" "distinct ps" by auto
    with Cons.IH Suc show ?thesis by auto
  qed
qed

lemma foldl_update_map_of:
  "map_of (foldl (\<lambda>d (k, v). AList.update k v d) acc kvs) = map_of (rev kvs @ acc)"
  by (induction kvs arbitrary: acc) (auto simp: AList.update_conv' map_add_def fun_eq_iff split: option.splits)

lemma foldl_update_distinct:
  "distinct (map fst acc) \<Longrightarrow> distinct (map fst (foldl (\<lambda>d (k, v). AList.update k v d) acc kvs))"
  by (induction kvs arbitrary: acc) (auto simp: AList.distinct_update)

lemma foldl_update_keys:
  "fst ` set (foldl (\<lambda>d (k, v). AList.update k v d) acc kvs) = fst ` set acc \<union> fst ` set kvs"
proof (induction kvs arbitrary: acc)
  case Nil
  then show ?case by simp
next
  case (Cons kv kvs)
  have "fst ` set (AList.update (fst kv) (snd kv) acc) = insert (fst kv) (fst ` set acc)"
    by (simp add: AList.dom_update)
  with Cons.IH [of "AList.update (fst kv) (snd kv) acc"] show ?case
    by (simp add: split_def insert_commute)
qed

lemma map_of_dict_of: "map_of (dict_of kvs) = map_of (rev kvs)"
  by (simp add: dict_of_def foldl_update_map_of)

lemma distinct_dict_of: "distinct (map fst (dict_of kvs))"
  by (simp add: dict_of_def foldl_update_distinct)

lemma keys_dict_of: "fst ` set (dict_of kvs) = fst ` set kvs"
  by (simp add: dict_of_def foldl_update_keys)

lemma length_dict_of: "length (dict_of kvs) = card (fst ` set kvs)"
proof -
  have "length (dict_of kvs) = length (map fst (dict_of kvs))" by simp
  also have "\<dots> = card (set (map fst (dict_of kvs)))"
    using distinct_dict_of [of kvs] by (simp only: distinct_card)
  also have "\<dots> = card (fst ` set kvs)" by (simp add: keys_dict_of)
  finally show ?thesis .
qed

lemma dict_inverse:
  assumes d: "distinct (map fst d)"
    and len: "length (dict_of (map (\<lambda>(k, v). (v, k)) d)) = length d"
  shows "map_of (dict_of (map (\<lambda>(k, v). (v, k)) d)) i = Some s \<longleftrightarrow> map_of d s = Some i"
proof -
  let ?sw = "map (\<lambda>(k, v). (v, k)) d"
  have fst_sw: "map fst (map (\<lambda>(k, v). (v, k)) xs) = map snd xs" for xs :: "('a \<times> 'b) list"
    by (induction xs) auto
  have dd: "distinct d" using d by (simp add: distinct_map)
  have "card (snd ` set d) = length d"
    using len by (simp add: length_dict_of image_image split_def)
  also have "\<dots> = card (set d)" using dd by (simp add: distinct_card)
  finally have "inj_on snd (set d)" by (intro eq_card_imp_inj_on) auto
  with dd have ds: "distinct (map snd d)" by (simp add: distinct_map)
  have "map fst (rev ?sw) = rev (map snd d)"
    by (simp only: rev_map fst_sw)
  with ds have dr: "distinct (map fst (rev ?sw))" by simp
  have "map_of (dict_of ?sw) i = Some s \<longleftrightarrow> (i, s) \<in> set (rev ?sw)"
    unfolding map_of_dict_of using dr by (rule map_of_eq_Some_iff)
  also have "\<dots> \<longleftrightarrow> (s, i) \<in> set d" by auto
  also have "\<dots> \<longleftrightarrow> map_of d s = Some i" using d by simp
  finally show ?thesis .
qed

subsection \<open>The constructor\<close>

lemma check_special_tokens_Inr:
  "check_special_tokens sp items = Inr u \<longleftrightarrow>
     (\<forall>(s, i) \<in> set items. piece_to_id sp s = unk_id sp \<and> 0 \<le> i)"
  by (induction sp items rule: check_special_tokens.induct) auto

lemma check_special_tokens_Inl:
  "check_special_tokens sp items = Inl e \<Longrightarrow> e = AssertionError"
  by (induction sp items rule: check_special_tokens.induct) (auto split: if_splits)


lemma init_loaded:
  assumes "fs vf = Some sp"
  shows "init fs vf bos eos unk =
     (let s2i = dict_of [(bos, bos_id sp), (eos, eos_id sp), (unk, unk_id sp)]
      in if registry_ok sp s2i
         then Inr \<lparr> sp_model = sp, special_token_to_id = s2i,
                    special_id_to_token = dict_of (map (\<lambda>(k, v). (v, k)) s2i),
                    vocab_file = vf, bos_token = bos, eos_token = eos, unk_token = unk \<rparr>
         else Inl AssertionError)"
proof -
  let ?s2i = "dict_of [(bos, bos_id sp), (eos, eos_id sp), (unk, unk_id sp)]"
  have "check_special_tokens sp ?s2i = Inr () \<or> check_special_tokens sp ?s2i = Inl AssertionError"
    by (cases "check_special_tokens sp ?s2i") (auto dest: check_special_tokens_Inl)
  then show ?thesis
    using assms
    by (auto simp: init_def SentencePieceProcessor_def Let_def registry_ok_def)
qed

lemma init_not_loaded: "fs vf = None \<Longrightarrow> init fs vf bos eos unk = Inl OSError"
  by (simp add: init_def SentencePieceProcessor_def)

lemma init_InrE:
  assumes "init fs vf bos eos unk = Inr t"
  obtains sp where "fs vf = Some sp"
    and "registry_ok sp (dict_of [(bos, bos_id sp), (eos, eos_id sp), (unk, unk_id sp)])"
    and "t = \<lparr> sp_model = sp,
               special_token_to_id = dict_of [(bos, bos_id sp), (eos, eos_id sp), (unk, unk_id sp)],
               special_id_to_token = dict_of (map (\<lambda>(k, v). (v, k))
                  (dict_of [(bos, bos_id sp), (eos, eos_id sp), (unk, unk_id sp)])),
               vocab_file = vf, bos_token = bos, eos_token = eos, unk_token = unk \<rparr>"
proof (cases "fs vf")
  case None
  with assms show ?thesis by (simp add: init_not_loaded)
next
  case (Some sp)
  note eq = init_loaded [where fs = fs and vf = vf, OF Some, of bos eos unk]
  from assms show ?thesis
    unfolding eq Let_def
    by (auto split: if_splits intro: that [OF Some])
qed

text \<open>What a successfully constructed tokenizer satisfies.\<close>

lemma init_fields:
  assumes "init fs vf bos eos unk = Inr t"
  shows "fs vf = Some (sp_model t)" "vocab_file t = vf"
    "bos_token t = bos" "eos_token t = eos" "unk_token t = unk"
  using assms by (auto elim!: init_InrE)

lemma init_token_to_id:
  assumes "init fs vf bos eos unk = Inr t"
  shows "map_of (special_token_to_id t) =
           [bos \<mapsto> bos_id (sp_model t), eos \<mapsto> eos_id (sp_model t), unk \<mapsto> unk_id (sp_model t)]"
  using assms by (auto elim!: init_InrE simp: map_of_dict_of fun_eq_iff)

lemma init_inverse:
  assumes "init fs vf bos eos unk = Inr t"
  shows "map_of (special_id_to_token t) i = Some s \<longleftrightarrow> map_of (special_token_to_id t) s = Some i"
proof -
  from assms obtain sp where ok: "registry_ok sp (special_token_to_id t)"
    and t: "special_id_to_token t = dict_of (map (\<lambda>(k, v). (v, k)) (special_token_to_id t))"
    and d: "distinct (map fst (special_token_to_id t))"
    by (auto elim!: init_InrE simp: distinct_dict_of)
  from ok have "length (dict_of (map (\<lambda>(k, v). (v, k)) (special_token_to_id t)))
      = length (special_token_to_id t)"
    by (simp add: registry_ok_def)
  from dict_inverse [OF d this] show ?thesis by (simp only: t)
qed

lemma init_checked:
  assumes "init fs vf bos eos unk = Inr t" and "map_of (special_token_to_id t) s = Some i"
  shows "piece_to_id (sp_model t) s = unk_id (sp_model t) \<and> 0 \<le> i"
proof -
  from assms(1) obtain sp where sp: "sp_model t = sp"
    and ok: "registry_ok sp (special_token_to_id t)"
    by (auto elim!: init_InrE)
  from assms(2) have "(s, i) \<in> set (special_token_to_id t)" by (rule map_of_SomeD)
  with ok show ?thesis
    unfolding sp registry_ok_def check_special_tokens_Inr by auto
qed

subsection \<open>The demo tokenizer is what the constructor builds\<close>

lemma demo_init:
  "init demo_fs ''tokenizer.model'' ''<bos>'' ''<eos>'' ''<unk>'' = Inr demo_tokenizer"
  by (simp add: init_def SentencePieceProcessor_def demo_fs_def demo_sp_def dict_of_def
      piece_to_id_def demo_tokenizer_def Let_def)

subsection \<open>The methods\<close>

lemma vocab_size_simp: "vocab_size self = (int (length (pieces (sp_model self))), self)"
  by (simp add: vocab_size_def get_piece_size_def)

lemma convert_token_to_id_state: "snd (convert_token_to_id self token) = self"
  by (simp add: convert_token_to_id_def split: option.splits)

lemma convert_id_to_token_state: "snd (convert_id_to_token self index) = self"
  by (simp add: convert_id_to_token_def split: option.splits)

lemma get_vocab_loop_state: "snd (get_vocab_loop self ids vocab) = self"
proof (induction ids arbitrary: vocab)
  case Nil
  then show ?case by simp
next
  case (Cons i ids)
  obtain r where r: "convert_ids_to_tokens self i = (r, self)"
    using convert_id_to_token_state [of self i]
    by (cases "convert_id_to_token self i") (simp add: convert_ids_to_tokens_def)
  show ?case
    by (cases r) (simp_all add: r Cons.IH)
qed

lemma update_fresh: "k \<notin> fst ` set al \<Longrightarrow> AList.update k v al = al @ [(k, v)]"
  by (induction al) auto

lemma get_vocab_loop_ok:
  assumes "\<forall>i \<in> set ids. convert_ids_to_tokens self i = (Inr (tok i), self)"
  shows "get_vocab_loop self ids vocab =
           (Inr (foldl (\<lambda>d i. AList.update (tok i) i d) vocab ids), self)"
  using assms by (induction ids arbitrary: vocab) simp_all

lemma foldl_update_inj:
  assumes "inj_on tok (set pre \<union> set ids)" and "distinct (pre @ ids)"
  shows "foldl (\<lambda>d i. AList.update (tok i) i d) (map (\<lambda>i. (tok i, i)) pre) ids =
           map (\<lambda>i. (tok i, i)) (pre @ ids)"
  using assms
proof (induction ids arbitrary: pre)
  case Nil
  then show ?case by simp
next
  case (Cons i ids)
  from Cons.prems have fresh: "tok i \<notin> fst ` set (map (\<lambda>i. (tok i, i)) pre)"
    by (auto simp: inj_on_def)
  have step: "AList.update (tok i) i (map (\<lambda>i. (tok i, i)) pre) = map (\<lambda>i. (tok i, i)) (pre @ [i])"
    using update_fresh [OF fresh] by simp
  from Cons.prems have "inj_on tok (set (pre @ [i]) \<union> set ids)" "distinct ((pre @ [i]) @ ids)"
    by (auto simp: Un_commute insert_commute)
  from Cons.IH [OF this] show ?case by (simp add: step)
qed

text \<open>The conversion of an id inside the range never raises.\<close>

lemma convert_id_in_range:
  assumes "0 \<le> i" and "i < int (length (pieces (sp_model self)))"
  shows "\<exists>tok. convert_id_to_token self i = (Inr tok, self)"
  using assms
  by (auto simp: convert_id_to_token_def IdToPiece_def get_piece_size_def split: option.splits)

text \<open>
  After a successful construction over a vocabulary of distinct pieces, two ids of the
  range that convert to the same string are equal.
\<close>

lemma convert_id_inj:
  assumes ok: "init fs vf bos eos unk = Inr t"
    and dist: "distinct (pieces (sp_model t))"
    and i: "0 \<le> i" "i < int (length (pieces (sp_model t)))"
    and j: "0 \<le> j" "j < int (length (pieces (sp_model t)))"
    and eq: "fst (convert_id_to_token t i) = fst (convert_id_to_token t j)"
  shows "i = j"
proof -
  let ?ps = "pieces (sp_model t)"
  have unk_reg: "map_of (special_id_to_token t) (unk_id (sp_model t)) = Some unk"
    unfolding init_inverse [OF ok] init_token_to_id [OF ok] by simp
  have clash: False
    if a: "map_of (special_id_to_token t) a = Some s"
      and b: "map_of (special_id_to_token t) b = None"
      and brange: "0 \<le> b" "b < int (length ?ps)"
      and same: "?ps ! nat b = s" for a b s
  proof -
    from a have "map_of (special_token_to_id t) s = Some a"
      by (simp add: init_inverse [OF ok])
    then have p: "piece_to_id (sp_model t) s = unk_id (sp_model t)"
      using init_checked [OF ok] by blast
    from brange have "nat b < length ?ps" by simp
    with dist same have "lookup_id ?ps s = Some (nat b)"
      using lookup_id_nth by blast
    with p brange have "unk_id (sp_model t) = b"
      by (simp add: piece_to_id_def)
    with unk_reg b show False by simp
  qed
  show ?thesis
  proof (cases "map_of (special_id_to_token t) i")
    case None
    note ni = this
    show ?thesis
    proof (cases "map_of (special_id_to_token t) j")
      case None
      with ni eq i j have "?ps ! nat i = ?ps ! nat j"
        by (simp add: convert_id_to_token_def IdToPiece_def get_piece_size_def)
      with dist i j have "nat i = nat j"
        by (simp add: nth_eq_iff_index_eq)
      with i j show ?thesis by simp
    next
      case (Some s)
      with ni eq i have "?ps ! nat i = s"
        by (simp add: convert_id_to_token_def IdToPiece_def get_piece_size_def)
      from clash [OF Some ni i this] show ?thesis ..
    qed
  next
    case (Some s)
    note si = this
    show ?thesis
    proof (cases "map_of (special_id_to_token t) j")
      case None
      with si eq j have "?ps ! nat j = s"
        by (simp add: convert_id_to_token_def IdToPiece_def get_piece_size_def)
      from clash [OF si None j this] show ?thesis ..
    next
      case (Some s')
      with si eq have "s' = s" by (simp add: convert_id_to_token_def)
      with si Some show ?thesis by (simp add: init_inverse [OF ok])
    qed
  qed
qed

text \<open>The dictionary \<open>get_vocab\<close> builds for the demo tokenizer.\<close>

lemma demo_get_vocab:
  "get_vocab demo_tokenizer =
     (Inr [(''<unk>'', 0), (''<bos>'', 1), (''<eos>'', 2), (''a'', 3), (''b'', 4), (''ab'', 5)],
      demo_tokenizer)"
  by (simp add: get_vocab_def vocab_size_def get_piece_size_def demo_tokenizer_def demo_sp_def
      upto.simps convert_ids_to_tokens_def convert_id_to_token_def IdToPiece_def)

section \<open>The claims\<close>

text \<open>
  Claim C1. The token list of \<open>_tokenize\<close> is the begin-of-sequence token followed by
  the SentencePiece segmentation of the text, for every text; and the token at the head
  is the string the constructor was given as \<open>bos_token\<close>. The constructor always
  stores a begin-of-sequence string (the parameter is a string with a default), so the
  token is prepended on every call.
\<close>

theorem tokenize_prepends_bos:
  "fst (tokenize self text) = bos_token self # encode (sp_model self) text \<and>
   (init fs vf bos eos unk = Inr self \<longrightarrow>
      fst (tokenize self text) = bos # encode (sp_model self) text)"
  by (auto simp: tokenize_def dest: init_fields)

theorem tokenize_prepends_bos_witness:
  "init demo_fs ''tokenizer.model'' ''<bos>'' ''<eos>'' ''<unk>'' = Inr demo_tokenizer \<and>
   fst (tokenize demo_tokenizer ''ab'') = [''<bos>'', ''a'', ''b'']"
  using tokenize_prepends_bos [of demo_tokenizer "''ab''" demo_fs "''tokenizer.model''"
      "''<bos>''" "''<eos>''" "''<unk>''"] demo_init
  by (simp add: demo_tokenizer_def demo_sp_def)

text \<open>
  Claim C2. With the model file loaded, if one of the three configured strings
  (bos, eos, unk) is looked up by \<open>piece_to_id\<close> to an id other than the unknown id,
  construction ends in the assertion error; and whenever construction succeeds, each of
  the three strings is looked up to the unknown id.
\<close>

theorem special_collision_fails:
  "(SentencePieceProcessor fs vf = Inr sp \<longrightarrow>
      (\<exists>s \<in> {bos, eos, unk}. piece_to_id sp s \<noteq> unk_id sp) \<longrightarrow>
      init fs vf bos eos unk = Inl AssertionError) \<and>
   (init fs vf bos eos unk = Inr t \<longrightarrow>
      (\<forall>s \<in> {bos, eos, unk}. piece_to_id (sp_model t) s = unk_id (sp_model t)))"
proof -
  have succ: "\<forall>s \<in> {bos, eos, unk}. piece_to_id (sp_model t') s = unk_id (sp_model t')"
    if ok: "init fs vf bos eos unk = Inr t'" for t'
  proof
    fix s assume "s \<in> {bos, eos, unk}"
    then have "\<exists>i. map_of (special_token_to_id t') s = Some i"
      unfolding init_token_to_id [OF ok] by auto
    with init_checked [OF ok] show "piece_to_id (sp_model t') s = unk_id (sp_model t')"
      by blast
  qed
  have fail: "init fs vf bos eos unk = Inl AssertionError"
    if ld: "SentencePieceProcessor fs vf = Inr sp"
      and bad: "\<exists>s \<in> {bos, eos, unk}. piece_to_id sp s \<noteq> unk_id sp"
  proof -
    from ld have some: "fs vf = Some sp"
      by (simp add: SentencePieceProcessor_def split: option.splits)
    show ?thesis
    proof (cases "init fs vf bos eos unk")
      case (Inl e)
      with some show ?thesis
        by (simp add: init_loaded [where fs = fs and vf = vf] Let_def split: if_splits)
    next
      case (Inr t')
      from init_fields(1) [OF Inr] some have "sp_model t' = sp" by simp
      with succ [OF Inr] bad show ?thesis by blast
    qed
  qed
  from succ fail show ?thesis by blast
qed

theorem special_collision_fails_witness:
  "SentencePieceProcessor demo_fs ''tokenizer.model'' = Inr demo_sp \<and>
   piece_to_id demo_sp ''<s>'' \<noteq> unk_id demo_sp \<and>
   init demo_fs ''tokenizer.model'' ''<s>'' ''<eos>'' ''<unk>'' = Inl AssertionError \<and>
   init demo_fs ''tokenizer.model'' ''<bos>'' ''<eos>'' ''<unk>'' = Inr demo_tokenizer \<and>
   piece_to_id demo_sp ''<bos>'' = unk_id demo_sp \<and>
   piece_to_id demo_sp ''<eos>'' = unk_id demo_sp \<and>
   piece_to_id demo_sp ''<unk>'' = unk_id demo_sp"
proof -
  have ld: "SentencePieceProcessor demo_fs ''tokenizer.model'' = Inr demo_sp"
    by (simp add: SentencePieceProcessor_def demo_fs_def)
  have bad: "piece_to_id demo_sp ''<s>'' \<noteq> unk_id demo_sp"
    by (simp add: piece_to_id_def demo_sp_def)
  have sp: "sp_model demo_tokenizer = demo_sp"
    by (simp add: demo_tokenizer_def)
  from special_collision_fails [of demo_fs "''tokenizer.model''" demo_sp
      "''<s>''" "''<eos>''" "''<unk>''" demo_tokenizer] ld bad
  have "init demo_fs ''tokenizer.model'' ''<s>'' ''<eos>'' ''<unk>'' = Inl AssertionError"
    by simp
  moreover from special_collision_fails [of demo_fs "''tokenizer.model''" demo_sp
      "''<bos>''" "''<eos>''" "''<unk>''" demo_tokenizer] demo_init
  have "\<forall>s \<in> {''<bos>'', ''<eos>'', ''<unk>''}. piece_to_id demo_sp s = unk_id demo_sp"
    by (simp only: sp) simp
  ultimately show ?thesis using ld bad demo_init by simp
qed

text \<open>
  Claim C3. A string that is a key of \<open>special_token_to_id\<close> converts to the id stored
  there, and an id that is a key of \<open>special_id_to_token\<close> converts to the string
  stored there, whatever the SentencePiece model would answer. In the example the model
  answers differently both times (\<open>0\<close> for the string, \<open><s>\<close> for the id).
\<close>

theorem registry_precedence:
  "(map_of (special_token_to_id self) s = Some i \<longrightarrow> fst (convert_token_to_id self s) = i) \<and>
   (map_of (special_id_to_token self) j = Some s' \<longrightarrow>
      fst (convert_id_to_token self j) = Inr s')"
  by (simp add: convert_token_to_id_def convert_id_to_token_def)

theorem registry_precedence_witness:
  "map_of (special_token_to_id demo_tokenizer) ''<bos>'' = Some 1 \<and>
   fst (convert_token_to_id demo_tokenizer ''<bos>'') = 1 \<and>
   piece_to_id (sp_model demo_tokenizer) ''<bos>'' = 0 \<and>
   map_of (special_id_to_token demo_tokenizer) 1 = Some ''<bos>'' \<and>
   fst (convert_id_to_token demo_tokenizer 1) = Inr ''<bos>'' \<and>
   IdToPiece (sp_model demo_tokenizer) 1 = Inr ''<s>''"
proof -
  have a: "map_of (special_token_to_id demo_tokenizer) ''<bos>'' = Some 1"
    and b: "map_of (special_id_to_token demo_tokenizer) 1 = Some ''<bos>''"
    by (simp_all add: demo_tokenizer_def)
  have c: "piece_to_id (sp_model demo_tokenizer) ''<bos>'' = 0"
    and d: "IdToPiece (sp_model demo_tokenizer) 1 = Inr ''<s>''"
    by (simp_all add: demo_tokenizer_def demo_sp_def piece_to_id_def IdToPiece_def
        get_piece_size_def)
  from registry_precedence [of demo_tokenizer "''<bos>''" 1 1 "''<bos>''"] a b c d
  show ?thesis by simp
qed

text \<open>
  Claim C4. A string that is neither a key of the special-token dictionary nor a piece
  of the vocabulary converts to the unknown id; the result is an id, never an exception
  (the method's result type has no error).
\<close>

theorem unknown_token_to_unk:
  "s \<notin> fst ` set (special_token_to_id self) \<Longrightarrow> s \<notin> set (pieces (sp_model self)) \<Longrightarrow>
   fst (convert_token_to_id self s) = unk_id (sp_model self)"
proof -
  assume a: "s \<notin> fst ` set (special_token_to_id self)" and b: "s \<notin> set (pieces (sp_model self))"
  from a have "map_of (special_token_to_id self) s = None"
    by (simp add: map_of_eq_None_iff)
  moreover from b have "lookup_id (pieces (sp_model self)) s = None"
    by (simp add: lookup_id_None)
  ultimately show ?thesis
    by (simp add: convert_token_to_id_def piece_to_id_def)
qed

theorem unknown_token_to_unk_witness:
  "''zz'' \<notin> fst ` set (special_token_to_id demo_tokenizer) \<and>
   ''zz'' \<notin> set (pieces (sp_model demo_tokenizer)) \<and>
   fst (convert_token_to_id demo_tokenizer ''zz'') = 0"
proof -
  have a: "''zz'' \<notin> fst ` set (special_token_to_id demo_tokenizer)"
    and b: "''zz'' \<notin> set (pieces (sp_model demo_tokenizer))"
    and c: "unk_id (sp_model demo_tokenizer) = 0"
    by (simp_all add: demo_tokenizer_def demo_sp_def)
  from unknown_token_to_unk [OF a b] a b c show ?thesis by simp
qed




text \<open>
  Claim C7. Two calls of \<open>_tokenize\<close> on the same text, the second on the object as
  the first call left it, return the same token list and leave the object as it was;
  and two calls on equal objects and equal texts return equal lists.
\<close>

theorem tokenize_deterministic:
  "(let (r1, self1) = tokenize self text; (r2, self2) = tokenize self1 text
    in r1 = r2 \<and> self2 = self) \<and>
   (self = self' \<and> text = text' \<longrightarrow> fst (tokenize self text) = fst (tokenize self' text'))"
  by (simp add: tokenize_def)

theorem tokenize_deterministic_witness:
  "(let (r1, self1) = tokenize demo_tokenizer ''ab''; (r2, self2) = tokenize self1 ''ab''
    in r1 = r2 \<and> self2 = demo_tokenizer) \<and>
   fst (tokenize demo_tokenizer ''ab'') = fst (tokenize demo_tokenizer ''ab'')"
  using tokenize_deterministic [of demo_tokenizer "''ab''" demo_tokenizer "''ab''"] by simp

text \<open>
  Claim C8. Each of \<open>_tokenize\<close>, \<open>_convert_token_to_id\<close>, \<open>_convert_id_to_token\<close>,
  \<open>get_vocab\<close> and \<open>vocab_size\<close> returns the object it was called on unchanged, so
  all its fields (the two dictionaries, the path and the model among them) are the same
  before and after the call.
\<close>

theorem methods_read_only:
  "snd (tokenize self text) = self \<and>
   snd (convert_token_to_id self token) = self \<and>
   snd (convert_id_to_token self index) = self \<and>
   snd (get_vocab self) = self \<and>
   snd (vocab_size self) = self"
  by (simp add: tokenize_def convert_token_to_id_state convert_id_to_token_state
      get_vocab_def vocab_size_def get_vocab_loop_state)

text \<open>
  Claim C6. After a successful construction over a vocabulary whose pieces are distinct
  strings (the invariant of a trained vocabulary), \<open>vocab_size\<close> is the number of
  pieces, \<open>get_vocab\<close> returns a dictionary with one entry per id of the range from 0
  to \<open>vocab_size\<close>, mapping the token of that id back to the id, and no two distinct
  ids of the range convert to the same token.
\<close>

theorem get_vocab_distinct:
  assumes ok: "init fs vf bos eos unk = Inr t"
    and dist: "distinct (pieces (sp_model t))"
  shows "fst (vocab_size t) = int (length (pieces (sp_model t))) \<and>
         (\<exists>vocab. get_vocab t = (Inr vocab, t) \<and>
            int (length vocab) = fst (vocab_size t) \<and>
            (\<forall>i \<in> {0..<fst (vocab_size t)}.
               \<exists>tok. fst (convert_id_to_token t i) = Inr tok \<and> map_of vocab tok = Some i)) \<and>
         (\<forall>i \<in> {0..<fst (vocab_size t)}. \<forall>j \<in> {0..<fst (vocab_size t)}.
            fst (convert_id_to_token t i) = fst (convert_id_to_token t j) \<longrightarrow> i = j)"
proof -
  let ?n = "int (length (pieces (sp_model t)))"
  let ?ids = "[0..?n - 1]"
  define tok where "tok i = (case fst (convert_id_to_token t i) of Inr s \<Rightarrow> s | Inl e \<Rightarrow> [])" for i
  have size: "fst (vocab_size t) = ?n" by (simp add: vocab_size_simp)
  have conv: "convert_id_to_token t i = (Inr (tok i), t)" if "i \<in> set ?ids" for i
  proof -
    from that have "0 \<le> i" "i < ?n" by auto
    from convert_id_in_range [OF this] show ?thesis by (auto simp: tok_def)
  qed
  have inj: "inj_on tok (set ?ids)"
  proof (rule inj_onI)
    fix i j assume i: "i \<in> set ?ids" and j: "j \<in> set ?ids" and eq: "tok i = tok j"
    from i j have r: "0 \<le> i" "i < ?n" "0 \<le> j" "j < ?n" by auto
    from eq conv [OF i] conv [OF j]
    have "fst (convert_id_to_token t i) = fst (convert_id_to_token t j)" by simp
    from convert_id_inj [OF ok dist r this] show "i = j" .
  qed
  let ?vocab = "map (\<lambda>i. (tok i, i)) ?ids"
  have "get_vocab_loop t ?ids [] = (Inr (foldl (\<lambda>d i. AList.update (tok i) i d) [] ?ids), t)"
    by (rule get_vocab_loop_ok) (simp add: convert_ids_to_tokens_def conv)
  moreover have "foldl (\<lambda>d i. AList.update (tok i) i d) [] ?ids = ?vocab"
    using foldl_update_inj [of tok "[]" ?ids] inj by simp
  ultimately have gv: "get_vocab t = (Inr ?vocab, t)"
    by (simp add: get_vocab_def vocab_size_simp)
  have len: "int (length ?vocab) = ?n" by simp
  have dk: "distinct (map fst ?vocab)"
    using inj by (simp add: distinct_map comp_def)
  have look: "\<exists>s. fst (convert_id_to_token t i) = Inr s \<and> map_of ?vocab s = Some i"
    if "i \<in> {0..<?n}" for i
  proof -
    from that have m: "i \<in> set ?ids" by auto
    then have "(tok i, i) \<in> set ?vocab" by (simp add: image_iff)
    with dk have "map_of ?vocab (tok i) = Some i" by (simp only: map_of_eq_Some_iff)
    with conv [OF m] show ?thesis by simp
  qed
  have uniq: "i = j"
    if "i \<in> {0..<?n}" "j \<in> {0..<?n}"
      "fst (convert_id_to_token t i) = fst (convert_id_to_token t j)" for i j
  proof -
    from that(1,2) have "0 \<le> i" "i < ?n" "0 \<le> j" "j < ?n" by auto
    from convert_id_inj [OF ok dist this that(3)] show ?thesis .
  qed
  from gv len look have "\<exists>vocab. get_vocab t = (Inr vocab, t) \<and>
            int (length vocab) = ?n \<and>
            (\<forall>i \<in> {0..<?n}.
               \<exists>tok. fst (convert_id_to_token t i) = Inr tok \<and> map_of vocab tok = Some i)"
    by blast
  with uniq show ?thesis unfolding size by blast
qed

theorem get_vocab_distinct_witness:
  "init demo_fs ''tokenizer.model'' ''<bos>'' ''<eos>'' ''<unk>'' = Inr demo_tokenizer \<and>
   distinct (pieces (sp_model demo_tokenizer)) \<and>
   fst (vocab_size demo_tokenizer) = 6 \<and>
   (\<exists>vocab. get_vocab demo_tokenizer = (Inr vocab, demo_tokenizer) \<and>
      int (length vocab) = 6 \<and> map_of vocab ''<bos>'' = Some 1) \<and>
   fst (convert_id_to_token demo_tokenizer 1) \<noteq> fst (convert_id_to_token demo_tokenizer 4)"
proof -
  have d: "distinct (pieces (sp_model demo_tokenizer))"
    by (simp add: demo_tokenizer_def demo_sp_def)
  have n: "int (length (pieces (sp_model demo_tokenizer))) = 6"
    by (simp add: demo_tokenizer_def demo_sp_def)
  have c: "fst (convert_id_to_token demo_tokenizer 1) = Inr ''<bos>''"
    by (simp add: convert_id_to_token_def demo_tokenizer_def)
  note T = get_vocab_distinct [OF demo_init d]
  from T n have sz: "fst (vocab_size demo_tokenizer) = 6" by simp
  from T obtain vocab where gv: "get_vocab demo_tokenizer = (Inr vocab, demo_tokenizer)"
    and len: "int (length vocab) = 6"
    and look: "\<forall>i \<in> {0..<6}. \<exists>tok. fst (convert_id_to_token demo_tokenizer i) = Inr tok \<and>
        map_of vocab tok = Some i"
    unfolding sz by blast
  from look have "\<exists>tok. fst (convert_id_to_token demo_tokenizer 1) = Inr tok \<and>
        map_of vocab tok = Some 1"
    by simp
  with c have bos: "map_of vocab ''<bos>'' = Some 1" by simp
  from T have "\<forall>i \<in> {0..<6}. \<forall>j \<in> {0..<6}.
      fst (convert_id_to_token demo_tokenizer i) = fst (convert_id_to_token demo_tokenizer j)
        \<longrightarrow> i = j"
    unfolding sz by blast
  then have "\<forall>j \<in> {0..<6}.
      fst (convert_id_to_token demo_tokenizer 1) = fst (convert_id_to_token demo_tokenizer j)
        \<longrightarrow> 1 = j"
    by (rule bspec) simp
  then have "fst (convert_id_to_token demo_tokenizer 1) = fst (convert_id_to_token demo_tokenizer 4)
      \<longrightarrow> (1::int) = 4"
    by (rule bspec) simp
  then have ne: "fst (convert_id_to_token demo_tokenizer 1) \<noteq>
      fst (convert_id_to_token demo_tokenizer 4)"
    by simp
  from demo_init d sz gv len bos ne show ?thesis by blast
qed

text \<open>
  Claim C10. After a successful construction, each of the three configured strings
  converts to an id that converts back to the same string, and each id that is a key of
  \<open>special_id_to_token\<close> converts to a string that converts back to the same id.
\<close>

theorem special_roundtrip:
  assumes "init fs vf bos eos unk = Inr t"
  shows "(\<forall>s \<in> {bos, eos, unk}.
            fst (convert_id_to_token t (fst (convert_token_to_id t s))) = Inr s) \<and>
         (\<forall>i \<in> fst ` set (special_id_to_token t).
            \<exists>s. fst (convert_id_to_token t i) = Inr s \<and> fst (convert_token_to_id t s) = i)"
proof (intro conjI ballI)
  fix s assume "s \<in> {bos, eos, unk}"
  then have "\<exists>i. map_of (special_token_to_id t) s = Some i"
    unfolding init_token_to_id [OF assms] by auto
  then obtain i where i: "map_of (special_token_to_id t) s = Some i" ..
  then have "map_of (special_id_to_token t) i = Some s"
    by (simp add: init_inverse [OF assms])
  with i show "fst (convert_id_to_token t (fst (convert_token_to_id t s))) = Inr s"
    by (simp add: convert_token_to_id_def convert_id_to_token_def)
next
  fix i assume "i \<in> fst ` set (special_id_to_token t)"
  then obtain s where s: "map_of (special_id_to_token t) i = Some s"
    by (cases "map_of (special_id_to_token t) i") (auto simp: map_of_eq_None_iff)
  then have "map_of (special_token_to_id t) s = Some i"
    by (simp add: init_inverse [OF assms])
  with s show "\<exists>s. fst (convert_id_to_token t i) = Inr s \<and> fst (convert_token_to_id t s) = i"
    by (simp add: convert_token_to_id_def convert_id_to_token_def)
qed

theorem special_roundtrip_witness:
  "init demo_fs ''tokenizer.model'' ''<bos>'' ''<eos>'' ''<unk>'' = Inr demo_tokenizer \<and>
   fst (convert_id_to_token demo_tokenizer (fst (convert_token_to_id demo_tokenizer ''<eos>'')))
     = Inr ''<eos>'' \<and>
   (2::int) \<in> fst ` set (special_id_to_token demo_tokenizer) \<and>
   (\<exists>s. fst (convert_id_to_token demo_tokenizer 2) = Inr s \<and>
        fst (convert_token_to_id demo_tokenizer s) = 2)"
proof -
  have m: "(2::int) \<in> fst ` set (special_id_to_token demo_tokenizer)"
    by (simp add: demo_tokenizer_def)
  from special_roundtrip [OF demo_init] m demo_init show ?thesis by blast
qed

text \<open>
  Claim C9 says that construction fails whenever two of the three reserved ids
  coincide or one of them is negative. The dictionary \<open>special_token_to_id\<close> is keyed
  by the token strings, so a string configured for two roles keeps only the id of the
  later role, and the assertions never see the earlier one. With the same string for
  \<open>bos_token\<close> and \<open>eos_token\<close> and a model whose begin id is \<open>-1\<close>, construction
  succeeds.
\<close>

theorem distinct_ids_counterexample:
  "SentencePieceProcessor nobos_fs ''tokenizer.model'' = Inr nobos_sp \<and>
   bos_id nobos_sp = - 1 \<and>
   init nobos_fs ''tokenizer.model'' ''<eos>'' ''<eos>'' ''<unk>'' =
     Inr \<lparr> sp_model = nobos_sp,
           special_token_to_id = [(''<eos>'', 1), (''<unk>'', 0)],
           special_id_to_token = [(1, ''<eos>''), (0, ''<unk>'')],
           vocab_file = ''tokenizer.model'',
           bos_token = ''<eos>'', eos_token = ''<eos>'', unk_token = ''<unk>'' \<rparr>"
  by (simp add: init_def SentencePieceProcessor_def nobos_fs_def nobos_sp_def dict_of_def
      piece_to_id_def Let_def)

text \<open>
  Claim C9, amended. When the three configured token strings are pairwise distinct,
  construction succeeds only if the model binds bos, eos and unk to pairwise distinct,
  non-negative ids; and with the model loaded, if two of the three ids coincide or one
  is negative, construction ends in the assertion error.
\<close>

theorem special_ids_distinct:
  assumes str: "bos \<noteq> eos" "bos \<noteq> unk" "eos \<noteq> unk"
  shows "(init fs vf bos eos unk = Inr t \<longrightarrow>
            distinct [bos_id (sp_model t), eos_id (sp_model t), unk_id (sp_model t)] \<and>
            0 \<le> bos_id (sp_model t) \<and> 0 \<le> eos_id (sp_model t) \<and> 0 \<le> unk_id (sp_model t)) \<and>
         (SentencePieceProcessor fs vf = Inr sp \<longrightarrow>
            (\<not> distinct [bos_id sp, eos_id sp, unk_id sp] \<or>
             bos_id sp < 0 \<or> eos_id sp < 0 \<or> unk_id sp < 0) \<longrightarrow>
            init fs vf bos eos unk = Inl AssertionError)"
proof -
  have succ: "distinct [bos_id (sp_model t'), eos_id (sp_model t'), unk_id (sp_model t')] \<and>
      0 \<le> bos_id (sp_model t') \<and> 0 \<le> eos_id (sp_model t') \<and> 0 \<le> unk_id (sp_model t')"
    if ok: "init fs vf bos eos unk = Inr t'" for t'
  proof -
    let ?sp = "sp_model t'"
    from str have b: "map_of (special_token_to_id t') bos = Some (bos_id ?sp)"
      and e: "map_of (special_token_to_id t') eos = Some (eos_id ?sp)"
      and u: "map_of (special_token_to_id t') unk = Some (unk_id ?sp)"
      unfolding init_token_to_id [OF ok] by simp_all
    from b e u have b': "map_of (special_id_to_token t') (bos_id ?sp) = Some bos"
      and e': "map_of (special_id_to_token t') (eos_id ?sp) = Some eos"
      and u': "map_of (special_id_to_token t') (unk_id ?sp) = Some unk"
      by (simp_all add: init_inverse [OF ok])
    from b' e' u' str have "distinct [bos_id ?sp, eos_id ?sp, unk_id ?sp]"
      by auto
    moreover from init_checked [OF ok b] init_checked [OF ok e] init_checked [OF ok u]
    have "0 \<le> bos_id ?sp \<and> 0 \<le> eos_id ?sp \<and> 0 \<le> unk_id ?sp" by simp
    ultimately show ?thesis by simp
  qed
  have fail: "init fs vf bos eos unk = Inl AssertionError"
    if ld: "SentencePieceProcessor fs vf = Inr sp"
      and bad: "\<not> distinct [bos_id sp, eos_id sp, unk_id sp] \<or>
             bos_id sp < 0 \<or> eos_id sp < 0 \<or> unk_id sp < 0"
  proof -
    from ld have some: "fs vf = Some sp"
      by (simp add: SentencePieceProcessor_def split: option.splits)
    show ?thesis
    proof (cases "init fs vf bos eos unk")
      case (Inl e)
      with some show ?thesis
        by (simp add: init_loaded [where fs = fs and vf = vf] Let_def split: if_splits)
    next
      case (Inr t')
      from init_fields(1) [OF Inr] some have "sp_model t' = sp" by simp
      with succ [OF Inr] bad show ?thesis by auto
    qed
  qed
  from succ fail show ?thesis by blast
qed

theorem special_ids_distinct_witness:
  "''<bos>'' \<noteq> ''<eos>'' \<and> ''<bos>'' \<noteq> ''<unk>'' \<and> ''<eos>'' \<noteq> ''<unk>'' \<and>
   init demo_fs ''tokenizer.model'' ''<bos>'' ''<eos>'' ''<unk>'' = Inr demo_tokenizer \<and>
   distinct [bos_id demo_sp, eos_id demo_sp, unk_id demo_sp] \<and>
   0 \<le> bos_id demo_sp \<and> 0 \<le> eos_id demo_sp \<and> 0 \<le> unk_id demo_sp \<and>
   SentencePieceProcessor nobos_fs ''tokenizer.model'' = Inr nobos_sp \<and>
   bos_id nobos_sp < 0 \<and>
   init nobos_fs ''tokenizer.model'' ''<bos>'' ''<eos>'' ''<unk>'' = Inl AssertionError"
proof -
  have str: "''<bos>'' \<noteq> ''<eos>''" "''<bos>'' \<noteq> ''<unk>''" "''<eos>'' \<noteq> ''<unk>''"
    by simp_all
  have sp: "sp_model demo_tokenizer = demo_sp" by (simp add: demo_tokenizer_def)
  have ld: "SentencePieceProcessor nobos_fs ''tokenizer.model'' = Inr nobos_sp"
    by (simp add: SentencePieceProcessor_def nobos_fs_def)
  have neg: "bos_id nobos_sp < 0" by (simp add: nobos_sp_def)
  from special_ids_distinct [OF str, of demo_fs "''tokenizer.model''" demo_tokenizer demo_sp] demo_init
  have a: "distinct [bos_id demo_sp, eos_id demo_sp, unk_id demo_sp] \<and>
     0 \<le> bos_id demo_sp \<and> 0 \<le> eos_id demo_sp \<and> 0 \<le> unk_id demo_sp"
    by (simp add: sp)
  from special_ids_distinct [OF str, of nobos_fs "''tokenizer.model''" demo_tokenizer nobos_sp] ld neg
  have b: "init nobos_fs ''tokenizer.model'' ''<bos>'' ''<eos>'' ''<unk>'' = Inl AssertionError"
    by simp
  from a b str demo_init ld neg show ?thesis by simp
qed

end
